theory Spec2Isabelle
  imports Complex_Main "HOL-Library.List_Lexorder" "HOL-Library.Char_ord"
begin

section \<open>Batch processing (examples/batch\_processing.py)\<close>

subsection \<open>Paths, values and dictionaries\<close>

text \<open>
  A \<open>pathlib.Path\<close> is the list of its components. \<open>Path.name\<close> is the last
  component (the empty string for a path without components).
\<close>

type_synonym path = "string list"

definition path_name :: "path \<Rightarrow> string" where
  "path_name p = (if p = [] then [] else last p)"

text \<open>
  The values the decoder hands out and the script stores in its dictionaries: strings
  and integers. A Python \<open>dict\<close> with string keys is a map; the decoded data set is
  such a map from element keywords to values, and \<open>ds.get(key, default)\<close> is a lookup
  with a default.
\<close>

datatype pyval = Str string | Num int

type_synonym pydict = "string \<rightharpoonup> pyval"

type_synonym dataset = "string \<rightharpoonup> pyval"

definition ds_get :: "dataset \<Rightarrow> string \<Rightarrow> pyval \<Rightarrow> pyval" where
  "ds_get ds key dflt = (case ds key of None \<Rightarrow> dflt | Some v \<Rightarrow> v)"

datatype pyerr = KeyError string | ValueError string | IndexError

subsection \<open>process\_single\_image\<close>

text \<open>
  The decoder \<open>pydicom.dcmread\<close> is a parameter: on a path it either returns a data
  set or raises an exception of class \<open>Exception\<close>, modelled as \<open>Inl\<close> of the text
  \<open>str(e)\<close>. An exception raised while the fields are read is caught by the same
  handler and counts as a failure of the decoder; interrupts and interpreter exit, which
  are not of class \<open>Exception\<close>, are no decode failures and are left out. Whether
  \<open>import pydicom\<close> succeeds is the flag \<open>installed\<close>. The result is the pair
  (success, dictionary) of the source.
\<close>

type_synonym outcome = "bool \<times> pydict"

definition process_single_image ::
  "bool \<Rightarrow> (path \<Rightarrow> string + dataset) \<Rightarrow> path \<Rightarrow> outcome" where
  "process_single_image installed dcmread dicom_path =
     (if \<not> installed then (False, [''error'' \<mapsto> Str ''pydicom not installed''])
      else case dcmread dicom_path of
        Inr ds \<Rightarrow>
          (True,
           [''filename'' \<mapsto> Str (path_name dicom_path),
            ''patient_id'' \<mapsto> ds_get ds ''PatientID'' (Str ''N/A''),
            ''study_uid'' \<mapsto> ds_get ds ''StudyInstanceUID'' (Str ''N/A''),
            ''series_number'' \<mapsto> ds_get ds ''SeriesNumber'' (Str ''N/A''),
            ''instance_number'' \<mapsto> ds_get ds ''InstanceNumber'' (Str ''N/A''),
            ''modality'' \<mapsto> ds_get ds ''Modality'' (Str ''N/A''),
            ''study_description'' \<mapsto> ds_get ds ''StudyDescription'' (Str ''N/A'')])
      | Inl e \<Rightarrow>
          (False, [''error'' \<mapsto> Str e, ''filename'' \<mapsto> Str (path_name dicom_path)]))"

subsection \<open>The processing loop of main\<close>

text \<open>
  \<open>display_progress\<close> prints one line built from the current index, the total and the
  file name; the line is kept as the record of these three values (the percentage the
  source prints as well is computed from the first two). The loop of \<open>main\<close> runs
  over \<open>enumerate(dicom_files, start=1)\<close>; its state is the console output so far and
  the list \<open>results\<close>. The trace also records each call of \<open>process_single_image\<close>.
\<close>

datatype event = Progress nat nat string | Processing path

definition display_progress :: "nat \<Rightarrow> nat \<Rightarrow> string \<Rightarrow> event" where
  "display_progress current tot filename = Progress current tot filename"

definition enumerate1 :: "'a list \<Rightarrow> (nat \<times> 'a) list" where
  "enumerate1 xs = zip [1..<Suc (length xs)] xs"

definition loop_body ::
  "bool \<Rightarrow> (path \<Rightarrow> string + dataset) \<Rightarrow> nat \<Rightarrow> nat \<times> path \<Rightarrow>
   event list \<times> outcome list \<Rightarrow> event list \<times> outcome list" where
  "loop_body installed dcmread tot = (\<lambda>(idx, dicom_file) (out, results).
     (out @ [display_progress idx tot (path_name dicom_file), Processing dicom_file],
      results @ [process_single_image installed dcmread dicom_file]))"

definition process_all_files ::
  "bool \<Rightarrow> (path \<Rightarrow> string + dataset) \<Rightarrow> path list \<Rightarrow> event list \<times> outcome list" where
  "process_all_files installed dcmread dicom_files =
     fold (loop_body installed dcmread (length dicom_files)) (enumerate1 dicom_files) ([], [])"

subsection \<open>find\_dicom\_files\<close>

text \<open>
  The directory tree below the search root: a regular file, or a directory with its
  named entries. \<open>walk\<close> lists every entry below a directory with its path, which is
  what \<open>directory.rglob\<close> traverses; the root itself is not among them.
\<close>

datatype node = File | Dir "(string \<times> node) list"

fun walk :: "path \<Rightarrow> node \<Rightarrow> (path \<times> node) list"
  and walk_entries :: "path \<Rightarrow> (string \<times> node) list \<Rightarrow> (path \<times> node) list" where
  "walk p File = []"
| "walk p (Dir es) = walk_entries p es"
| "walk_entries p [] = []"
| "walk_entries p ((n, c) # es) = (p @ [n], c) # walk (p @ [n]) c @ walk_entries p es"

definition is_file :: "path \<times> node \<Rightarrow> bool" where
  "is_file e = (snd e = File)"

text \<open>
  \<open>rglob('*' + ext)\<close> yields the entries whose name matches the pattern, that is, ends
  with \<open>ext\<close> (matching is case-sensitive, as on POSIX systems); the kind of the entry
  plays no part. \<open>rglob('*')\<close> yields every entry.
\<close>

definition endswith :: "string \<Rightarrow> string \<Rightarrow> bool" where
  "endswith s ext = (length ext \<le> length s \<and> drop (length s - length ext) s = ext)"

definition rglob :: "path \<Rightarrow> node \<Rightarrow> string \<Rightarrow> (path \<times> node) list" where
  "rglob directory tree ext = [e. e \<leftarrow> walk directory tree, endswith (path_name (fst e)) ext]"

text \<open>
  \<open>Path.suffix\<close>: with \<open>i\<close> the last index of a dot in the name, the suffix is
  \<open>name[i:]\<close> when \<open>0 < i < len(name) - 1\<close> and the empty string otherwise.
\<close>

definition rfind :: "string \<Rightarrow> char \<Rightarrow> int" where
  "rfind s c = (if c \<in> set s
     then int (length s) - 1 - int (length (takeWhile (\<lambda>x. x \<noteq> c) (rev s)))
     else - 1)"

definition path_suffix :: "path \<Rightarrow> string" where
  "path_suffix p = (let name = path_name p; i = rfind name (CHR ''.'')
     in if 0 < i \<and> i < int (length name) - 1 then drop (nat i) name else [])"

definition extensions :: "string list" where
  "extensions = [''.dcm'', ''.dicom'', ''.DCM'', ''.DICOM'']"

text \<open>
  Paths are compared as \<open>pathlib\<close> compares them: lexicographically on the list of
  components, each component by the order of its characters.
\<close>

definition find_dicom_files :: "path \<Rightarrow> node \<Rightarrow> path list" where
  "find_dicom_files directory tree =
     (let by_ext = concat (map (\<lambda>ext. map fst (rglob directory tree ext)) extensions);
          no_ext = [fst file. file \<leftarrow> rglob directory tree [],
                      is_file file \<and> path_suffix (fst file) = [] \<and>
                      path_name (fst file) \<noteq> ''.DS_Store'']
      in sort (by_ext @ no_ext))"

subsection \<open>group\_by\_study\<close>

text \<open>
  The dictionary \<open>studies\<close> keeps its keys in insertion order, so it is an association
  list; a key is appended when it is first seen and the record is appended to the list
  stored under its key.
\<close>

type_synonym studies = "(pyval \<times> pydict list) list"

fun append_to :: "pyval \<Rightarrow> pydict \<Rightarrow> studies \<Rightarrow> studies" where
  "append_to k r [] = []"
| "append_to k r ((k', g) # rest) =
     (if k' = k then (k', g @ [r]) # rest else (k', g) # append_to k r rest)"

definition group_step :: "pydict \<Rightarrow> studies \<Rightarrow> studies" where
  "group_step result studies =
     (case result ''study_uid'' of
        None \<Rightarrow> studies
      | Some study_uid \<Rightarrow>
          append_to study_uid result
            (if study_uid \<notin> set (map fst studies) then studies @ [(study_uid, [])]
             else studies))"

definition group_by_study :: "pydict list \<Rightarrow> studies" where
  "group_by_study results = fold group_step results []"

definition successful_results :: "outcome list \<Rightarrow> pydict list" where
  "successful_results results = map snd (filter fst results)"

subsection \<open>The error section of display\_summary\<close>

text \<open>
  Decimal rendering of numbers and \<open>str\<close> of a value, as the f-strings use them.
\<close>

fun show_nat :: "nat \<Rightarrow> string" where
  "show_nat n = (if n < 10 then [''0123456789'' ! n]
                 else show_nat (n div 10) @ [''0123456789'' ! (n mod 10)])"

declare show_nat.simps [simp del]

definition py_str :: "pyval \<Rightarrow> string" where
  "py_str v = (case v of Str s \<Rightarrow> s
     | Num i \<Rightarrow> (if i < 0 then ''-'' @ show_nat (nat (- i)) else show_nat (nat i)))"

text \<open>
  The list \<open>errors\<close> of \<open>display_summary\<close>: for every failed outcome, in order, the
  pair of \<open>result['filename']\<close> and \<open>result.get('error', 'Unknown error')\<close>. The
  subscript raises \<open>KeyError\<close> on a dictionary without the key.
\<close>

fun collect_errors :: "outcome list \<Rightarrow> pyerr + (pyval \<times> pyval) list" where
  "collect_errors [] = Inr []"
| "collect_errors ((success, result) # rest) =
     (if success then collect_errors rest
      else case result ''filename'' of
        None \<Rightarrow> Inl (KeyError ''filename'')
      | Some filename \<Rightarrow>
          (case collect_errors rest of
             Inl e \<Rightarrow> Inl e
           | Inr es \<Rightarrow> Inr ((filename, ds_get result ''error'' (Str ''Unknown error'')) # es)))"

text \<open>
  The part of \<open>display_summary\<close> that reports the errors (from the construction of
  \<open>errors\<close> to the line counting the remaining ones): the strings it prints, one per
  call of \<open>print\<close>.
\<close>

definition error_line :: "pyval \<times> pyval \<Rightarrow> string" where
  "error_line e = ''  '' @ py_str (fst e) @ '': '' @ py_str (snd e)"

definition more_line :: "nat \<Rightarrow> string" where
  "more_line k = ''  ... and '' @ show_nat k @ '' more errors''"

definition errors_header :: "string list" where
  "errors_header =
     [CHR 0x0A # replicate 70 (CHR ''-''), ''ERRORS ENCOUNTERED:'', replicate 70 (CHR ''-'')]"

definition display_summary_errors :: "outcome list \<Rightarrow> pyerr + string list" where
  "display_summary_errors results =
     (case collect_errors results of
        Inl e \<Rightarrow> Inl e
      | Inr errors \<Rightarrow>
          Inr (if errors \<noteq> []
               then errors_header @ map error_line (take 10 errors) @
                    (if length errors > 10 then [more_line (length errors - 10)] else [])
               else []))"

subsection \<open>Sample inputs\<close>

text \<open>
  A decoder used to run the definitions on concrete files: one file it rejects, two files
  without a study identifier, and files of the study \<open>S1\<close>.
\<close>

definition demo_dcmread :: "path \<Rightarrow> string + dataset" where
  "demo_dcmread p =
     (if path_name p = ''bad.dcm'' then Inl ''Invalid DICOM file''
      else if path_name p \<in> {''nouid1.dcm'', ''nouid2.dcm''} then Inr [''PatientID'' \<mapsto> Str ''P7'']
      else Inr [''StudyInstanceUID'' \<mapsto> Str ''S1'', ''PatientID'' \<mapsto> Str ''P1'',
                ''Modality'' \<mapsto> Str ''CT''])"

text \<open>
  The study identifiers of the records that carry one, in order, and the distinct elements
  of a list in the order of their first occurrence.
\<close>

definition study_ids :: "pydict list \<Rightarrow> pyval list" where
  "study_ids rs = List.map_filter (\<lambda>r. r ''study_uid'') rs"

definition first_occurrences :: "'a list \<Rightarrow> 'a list" where
  "first_occurrences xs = rev (remdups (rev xs))"

text \<open>
  The records of a list that carry a given study identifier, in order.
\<close>

definition records_of :: "pyval \<Rightarrow> pydict list \<Rightarrow> pydict list" where
  "records_of k rs = filter (\<lambda>r. r ''study_uid'' = Some k) rs"

text \<open>
  Four records for running \<open>group_by_study\<close>: two of study \<open>S1\<close>, one of study
  \<open>S2\<close> and one without the key \<open>study_uid\<close>.
\<close>

definition demo_records :: "pydict list" where
  "demo_records =
     [[''filename'' \<mapsto> Str ''a.dcm'', ''study_uid'' \<mapsto> Str ''S1''],
      [''filename'' \<mapsto> Str ''b.dcm''],
      [''filename'' \<mapsto> Str ''c.dcm'', ''study_uid'' \<mapsto> Str ''S2''],
      [''filename'' \<mapsto> Str ''d.dcm'', ''study_uid'' \<mapsto> Str ''S1'']]"

text \<open>
  The distinct non-empty study identifiers of a list of records, as the specification
  counts them: the values stored under \<open>study_uid\<close> other than the empty string. The
  record of a file whose study identifier element is present with an empty value stores
  the empty string.
\<close>

definition nonempty_study_ids :: "pydict list \<Rightarrow> pyval list" where
  "nonempty_study_ids rs = remdups (filter (\<lambda>k. k \<noteq> Str []) (study_ids rs))"

definition blank_uid_records :: "pydict list" where
  "blank_uid_records = [[''filename'' \<mapsto> Str ''a.dcm'', ''study_uid'' \<mapsto> Str []]]"

section \<open>Image filters (examples/custom\_filter.py)\<close>

subsection \<open>Floating-point values\<close>

text \<open>
  A value of type \<open>float64\<close> is a finite number, an infinity or NaN. Finite values are
  real numbers: rounding and overflow are outside this development, and so is the sign of
  zero (a zero divisor is taken as positive). Operations on the other values follow
  IEEE 754, as numpy does (with a warning, not an exception): a non-zero number divided
  by zero is an infinity, and zero divided by zero is NaN.
\<close>

datatype fl = Fin real | PInf | NInf | NaN

fun is_finite :: "fl \<Rightarrow> bool" where
  "is_finite (Fin r) = True"
| "is_finite v = False"

fun fneg :: "fl \<Rightarrow> fl" where
  "fneg (Fin a) = Fin (- a)"
| "fneg PInf = NInf"
| "fneg NInf = PInf"
| "fneg NaN = NaN"

fun fsub :: "fl \<Rightarrow> fl \<Rightarrow> fl" where
  "fsub (Fin a) (Fin b) = Fin (a - b)"
| "fsub NaN v = NaN"
| "fsub v NaN = NaN"
| "fsub PInf PInf = NaN"
| "fsub NInf NInf = NaN"
| "fsub PInf v = PInf"
| "fsub NInf v = NInf"
| "fsub (Fin a) v = fneg v"

fun fmul :: "fl \<Rightarrow> fl \<Rightarrow> fl" where
  "fmul (Fin a) (Fin b) = Fin (a * b)"
| "fmul NaN v = NaN"
| "fmul v NaN = NaN"
| "fmul (Fin a) v = (if a = 0 then NaN else if 0 < a then v else fneg v)"
| "fmul v (Fin b) = (if b = 0 then NaN else if 0 < b then v else fneg v)"
| "fmul PInf v = v"
| "fmul NInf v = fneg v"

fun fdiv :: "fl \<Rightarrow> fl \<Rightarrow> fl" where
  "fdiv (Fin a) (Fin b) =
     (if b = 0 then (if a = 0 then NaN else if 0 < a then PInf else NInf) else Fin (a / b))"
| "fdiv NaN v = NaN"
| "fdiv v NaN = NaN"
| "fdiv (Fin a) v = Fin 0"
| "fdiv v (Fin b) = (if 0 \<le> b then v else fneg v)"
| "fdiv v w = NaN"

subsection \<open>Images and the library primitives\<close>

text \<open>
  The pixel array of a decoded file, converted by \<open>astype(float)\<close>, is a two-dimensional
  array of finite samples: a list of rows. The result of a filter may hold values that
  are not finite.
\<close>

type_synonym image = "real list list"

type_synonym fimage = "fl list list"

definition lift :: "image \<Rightarrow> fimage" where
  "lift img = map (map Fin) img"

text \<open>
  The filters of \<open>scipy.ndimage\<close> and the reductions of numpy are parameters. On finite
  arrays the filters return finite arrays.
\<close>

record lib =
  gaussian_filter :: "image \<Rightarrow> real \<Rightarrow> image"
  sobel :: "image \<Rightarrow> nat \<Rightarrow> image"
  np_min :: "fimage \<Rightarrow> fl"
  np_max :: "fimage \<Rightarrow> fl"
  np_mean :: "fimage \<Rightarrow> fl"
  np_std :: "fimage \<Rightarrow> fl"
  np_median :: "fimage \<Rightarrow> fl"

text \<open>
  \<open>np.percentile\<close> with its default linear interpolation, on the flattened array:
  with the samples sorted and \<open>h = (n - 1) * q / 100\<close>, the value interpolated between
  the samples at the indices \<open>floor h\<close> and \<open>floor h + 1\<close>. A \<open>q\<close> outside [0, 100] is a
  \<open>ValueError\<close>. What numpy does on an empty array depends on its version; it is
  reported as an error here, and pixel arrays are not empty.
\<close>

definition np_percentile :: "image \<Rightarrow> real \<Rightarrow> pyerr + real" where
  "np_percentile a q =
     (let s = sort (concat a); n = length s
      in if q < 0 \<or> 100 < q then Inl (ValueError ''Percentiles must be in the range [0, 100]'')
         else if n = 0 then Inl IndexError
         else let h = (real n - 1) * q / 100; i = nat \<lfloor>h\<rfloor>; g = h - real i
              in Inr (if i + 1 < n then s ! i + g * (s ! (i + 1) - s ! i) else s ! (n - 1)))"

definition np_clip :: "image \<Rightarrow> real \<Rightarrow> real \<Rightarrow> image" where
  "np_clip a a_min a_max = map (map (\<lambda>x. min (max x a_min) a_max)) a"

subsection \<open>The filters\<close>

definition apply_gaussian_filter :: "lib \<Rightarrow> image \<Rightarrow> real \<Rightarrow> image" where
  "apply_gaussian_filter l img sigma = gaussian_filter l img sigma"

definition apply_edge_detection :: "lib \<Rightarrow> image \<Rightarrow> real \<Rightarrow> image" where
  "apply_edge_detection l img sigma =
     (let smoothed = gaussian_filter l img sigma;
          gradient_x = sobel l smoothed 0;
          gradient_y = sobel l smoothed 1
      in map2 (map2 (\<lambda>gx gy. sqrt (gx\<^sup>2 + gy\<^sup>2))) gradient_x gradient_y)"

definition apply_contrast_enhancement :: "image \<Rightarrow> real \<Rightarrow> real \<Rightarrow> pyerr + fimage" where
  "apply_contrast_enhancement img percentile_low percentile_high =
     (case np_percentile img percentile_low of
        Inl e \<Rightarrow> Inl e
      | Inr p_low \<Rightarrow>
          (case np_percentile img percentile_high of
             Inl e \<Rightarrow> Inl e
           | Inr p_high \<Rightarrow>
               (let enhanced = np_clip img p_low p_high
                in Inr (map (map (\<lambda>x. fdiv (fsub (Fin x) (Fin p_low))
                                         (fsub (Fin p_high) (Fin p_low)))) enhanced))))"

subsection \<open>Statistics and comparison\<close>

record stats =
  s_min :: fl
  s_max :: fl
  s_mean :: fl
  s_std :: fl
  s_median :: fl
  s_shape :: "nat \<times> nat"
  s_dtype :: string

definition shape :: "'a list list \<Rightarrow> nat \<times> nat" where
  "shape img = (length img, case img of [] \<Rightarrow> 0 | row # rows \<Rightarrow> length row)"

definition compute_image_statistics :: "lib \<Rightarrow> fimage \<Rightarrow> stats" where
  "compute_image_statistics l img =
     \<lparr>s_min = np_min l img, s_max = np_max l img, s_mean = np_mean l img,
      s_std = np_std l img, s_median = np_median l img,
      s_shape = shape img, s_dtype = ''float64''\<rparr>"

text \<open>
  \<open>display_filter_comparison\<close> prints both sets of statistics and the two changes it
  computes from them; its output is kept as a record of these values.
\<close>

record comparison =
  c_filter_name :: string
  c_original :: stats
  c_filtered :: stats
  mean_change :: fl
  std_change :: fl

definition display_filter_comparison :: "stats \<Rightarrow> stats \<Rightarrow> string \<Rightarrow> comparison" where
  "display_filter_comparison original_stats filtered_stats filter_name =
     \<lparr>c_filter_name = filter_name,
      c_original = original_stats,
      c_filtered = filtered_stats,
      mean_change = fmul (fdiv (fsub (s_mean filtered_stats) (s_mean original_stats))
                            (s_mean original_stats)) (Fin 100),
      std_change = fmul (fdiv (fsub (s_std filtered_stats) (s_std original_stats))
                           (s_std original_stats)) (Fin 100)\<rparr>"

subsection \<open>process\_with\_filters\<close>

text \<open>
  The argument \<open>loaded\<close> is the pixel array returned by \<open>load_dicom_pixel_data\<close>, or
  \<open>None\<close> when loading failed, in which case the function returns at once. The result
  is the list of the comparisons displayed, in order.
\<close>

definition process_with_filters ::
  "lib \<Rightarrow> image option \<Rightarrow> real \<Rightarrow> real \<Rightarrow> bool \<Rightarrow> pyerr + comparison list" where
  "process_with_filters l loaded gaussian_sigma edge_sigma enable_contrast =
     (case loaded of
        None \<Rightarrow> Inr []
      | Some pixel_data \<Rightarrow>
          (let original_stats = compute_image_statistics l (lift pixel_data);
               gaussian_filtered = apply_gaussian_filter l pixel_data gaussian_sigma;
               gaussian_stats = compute_image_statistics l (lift gaussian_filtered);
               shown1 = [display_filter_comparison original_stats gaussian_stats ''Gaussian Blur''];
               edge_filtered = apply_edge_detection l pixel_data edge_sigma;
               edge_stats = compute_image_statistics l (lift edge_filtered);
               shown2 = shown1 @
                 [display_filter_comparison original_stats edge_stats ''Edge Detection'']
           in if enable_contrast
              then (case apply_contrast_enhancement pixel_data 2 98 of
                      Inl e \<Rightarrow> Inl e
                    | Inr contrast_enhanced \<Rightarrow>
                        (let contrast_stats = compute_image_statistics l contrast_enhanced
                         in Inr (shown2 @
                              [display_filter_comparison original_stats contrast_stats
                                 ''Contrast Enhancement''])))
              else Inr shown2))"

subsection \<open>The pipeline as the specification words it\<close>

text \<open>
  The specification describes a list of filter specifications, each applied to the
  baseline, with one result per specification in the same order.
\<close>

datatype filter_spec = Smoothing real | EdgeDetection real | ContrastEnhancement real real

fun apply_filter :: "lib \<Rightarrow> image \<Rightarrow> filter_spec \<Rightarrow> pyerr + fimage" where
  "apply_filter l baseline (Smoothing sigma) = Inr (lift (apply_gaussian_filter l baseline sigma))"
| "apply_filter l baseline (EdgeDetection sigma) =
     Inr (lift (apply_edge_detection l baseline sigma))"
| "apply_filter l baseline (ContrastEnhancement lo hi) = apply_contrast_enhancement baseline lo hi"

fun filter_name_of :: "filter_spec \<Rightarrow> string" where
  "filter_name_of (Smoothing sigma) = ''Gaussian Blur''"
| "filter_name_of (EdgeDetection sigma) = ''Edge Detection''"
| "filter_name_of (ContrastEnhancement lo hi) = ''Contrast Enhancement''"

definition filter_result :: "lib \<Rightarrow> image \<Rightarrow> filter_spec \<Rightarrow> pyerr + comparison" where
  "filter_result l baseline spec =
     (case apply_filter l baseline spec of
        Inl e \<Rightarrow> Inl e
      | Inr out \<Rightarrow>
          Inr (display_filter_comparison (compute_image_statistics l (lift baseline))
                 (compute_image_statistics l out) (filter_name_of spec)))"

fun collect :: "('e + 'a) list \<Rightarrow> 'e + 'a list" where
  "collect [] = Inr []"
| "collect (Inl e # rs) = Inl e"
| "collect (Inr x # rs) = (case collect rs of Inl e \<Rightarrow> Inl e | Inr xs \<Rightarrow> Inr (x # xs))"

definition filter_pipeline_spec :: "lib \<Rightarrow> image \<Rightarrow> filter_spec list \<Rightarrow> pyerr + comparison list" where
  "filter_pipeline_spec l baseline specs = collect (map (filter_result l baseline) specs)"


subsection \<open>Auxiliary notions for the filters\<close>

text \<open>
  The interpolation step of \<open>np_percentile\<close> on a sorted list, and the composition of
  clipping and rescaling that \<open>apply_contrast_enhancement\<close> applies to each sample.
\<close>

definition interp :: "real list \<Rightarrow> real \<Rightarrow> real" where
  "interp s h = (let i = nat \<lfloor>h\<rfloor>; g = h - real i
     in if i + 1 < length s then s ! i + g * (s ! (i + 1) - s ! i) else s ! (length s - 1))"

definition rescale :: "real \<Rightarrow> real \<Rightarrow> real \<Rightarrow> fl" where
  "rescale p_low p_high x =
     fdiv (fsub (Fin (min (max x p_low) p_high)) (Fin p_low)) (fsub (Fin p_high) (Fin p_low))"

text \<open>
  The statistics of a blank image (two rows of two zero samples), as numpy computes them.
\<close>

definition blank_stats :: stats where
  "blank_stats = \<lparr>s_min = Fin 0, s_max = Fin 0, s_mean = Fin 0, s_std = Fin 0,
     s_median = Fin 0, s_shape = (2, 2), s_dtype = ''float64''\<rparr>"

section \<open>Properties of the batch run\<close>

lemma fold_loop_body:
  "length is = length fs \<Longrightarrow>
   fold (loop_body inst rd n) (zip is fs) (out, res) =
     (out @ concat (map (\<lambda>(i, f). [Progress i n (path_name f), Processing f]) (zip is fs)),
      res @ map (process_single_image inst rd) fs)"
proof (induction fs arbitrary: "is" out res)
  case Nil
  then show ?case by simp
next
  case (Cons f fs)
  then obtain i is' where "is = i # is'" "length is' = length fs"
    by (cases "is") auto
  with Cons.IH [of is'] show ?case
    by (simp add: loop_body_def display_progress_def)
qed

lemma process_all_files_eq:
  "process_all_files inst rd fs =
     (concat (map (\<lambda>(i, f). [Progress i (length fs) (path_name f), Processing f])
        (enumerate1 fs)),
      map (process_single_image inst rd) fs)"
proof -
  have "length [1..<Suc (length fs)] = length fs" by (simp del: upt_Suc)
  from fold_loop_body [OF this, of inst rd "length fs" "[]" "[]"]
  show ?thesis by (simp only: process_all_files_def enumerate1_def append_Nil)
qed

lemma enumerate1_nth:
  "i < length fs \<Longrightarrow> enumerate1 fs ! i = (Suc i, fs ! i)"
  unfolding enumerate1_def by (simp add: nth_append less_Suc_eq_le del: upt_Suc)

lemma concat_pairs_nth:
  "i < length xs \<Longrightarrow>
   concat (map (\<lambda>x. [f x, g x]) xs) ! (2 * i) = f (xs ! i) \<and>
   concat (map (\<lambda>x. [f x, g x]) xs) ! (2 * i + 1) = g (xs ! i)"
proof (induction xs arbitrary: i)
  case Nil
  then show ?case by simp
next
  case (Cons x xs)
  then show ?case by (cases i) auto
qed

lemma concat_pairs_length:
  "length (concat (map (\<lambda>x. [f x, g x]) xs)) = 2 * length xs"
  by (induction xs) auto

text \<open>
  C1. The batch run returns one outcome per input file, in input order: the list of
  results has the length of the list of files and its i-th entry is the result of
  processing the i-th file. The console trace has two entries per file: the progress
  notification with the 1-based index, the total count and the file's name, and directly
  after it the processing of that file.
\<close>

theorem batch_one_outcome_per_file:
  "length (snd (process_all_files inst rd fs)) = length fs \<and>
   length (fst (process_all_files inst rd fs)) = 2 * length fs \<and>
   (\<forall>i < length fs.
      snd (process_all_files inst rd fs) ! i = process_single_image inst rd (fs ! i) \<and>
      fst (process_all_files inst rd fs) ! (2 * i) =
        Progress (i + 1) (length fs) (path_name (fs ! i)) \<and>
      fst (process_all_files inst rd fs) ! (2 * i + 1) = Processing (fs ! i))"
proof -
  let ?h = "\<lambda>(i, f). [Progress i (length fs) (path_name f), Processing f]"
  let ?f = "\<lambda>(i, f). Progress i (length fs) (path_name f)"
  let ?g = "\<lambda>(i::nat, f). Processing f"
  have h: "?h = (\<lambda>x. [?f x, ?g x])" by auto
  have len: "length (enumerate1 fs) = length fs"
    by (simp add: enumerate1_def del: upt_Suc)
  have tr: "fst (process_all_files inst rd fs) = concat (map (\<lambda>x. [?f x, ?g x]) (enumerate1 fs))"
    using h by (simp add: process_all_files_eq)
  have rs: "snd (process_all_files inst rd fs) = map (process_single_image inst rd) fs"
    by (simp add: process_all_files_eq)
  have "\<forall>i < length fs.
      fst (process_all_files inst rd fs) ! (2 * i) =
        Progress (i + 1) (length fs) (path_name (fs ! i)) \<and>
      fst (process_all_files inst rd fs) ! (2 * i + 1) = Processing (fs ! i)"
  proof (intro allI impI)
    fix i assume i: "i < length fs"
    then have "i < length (enumerate1 fs)" using len by simp
    from concat_pairs_nth [OF this, of ?f ?g] enumerate1_nth [OF i]
    show "fst (process_all_files inst rd fs) ! (2 * i) =
        Progress (i + 1) (length fs) (path_name (fs ! i)) \<and>
      fst (process_all_files inst rd fs) ! (2 * i + 1) = Processing (fs ! i)"
      unfolding tr by simp
  qed
  moreover have "length (fst (process_all_files inst rd fs)) = 2 * length fs"
    unfolding tr using concat_pairs_length [of ?f ?g "enumerate1 fs"] len by simp
  ultimately show ?thesis using rs by simp
qed

theorem batch_one_outcome_per_file_witness:
  "(1::nat) < length [[''d'', ''bad.dcm''], [''d'', ''a.dcm'']] \<and>
   snd (process_all_files True demo_dcmread [[''d'', ''bad.dcm''], [''d'', ''a.dcm'']]) ! 1 =
     process_single_image True demo_dcmread [''d'', ''a.dcm''] \<and>
   fst (process_all_files True demo_dcmread [[''d'', ''bad.dcm''], [''d'', ''a.dcm'']]) ! 2 =
     Progress 2 2 ''a.dcm'' \<and>
   fst (process_all_files True demo_dcmread [[''d'', ''bad.dcm''], [''d'', ''a.dcm'']]) ! 3 =
     Processing [''d'', ''a.dcm'']"
proof -
  let ?fs = "[[''d'', ''bad.dcm''], [''d'', ''a.dcm'']]"
  have one: "(1::nat) < length ?fs" by simp
  from batch_one_outcome_per_file [of True demo_dcmread ?fs]
  have "\<forall>i < length ?fs.
      snd (process_all_files True demo_dcmread ?fs) ! i =
        process_single_image True demo_dcmread (?fs ! i) \<and>
      fst (process_all_files True demo_dcmread ?fs) ! (2 * i) =
        Progress (i + 1) (length ?fs) (path_name (?fs ! i)) \<and>
      fst (process_all_files True demo_dcmread ?fs) ! (2 * i + 1) = Processing (?fs ! i)"
    by blast
  from this [rule_format, OF one] one show ?thesis
    by (simp add: path_name_def)
qed

text \<open>
  C2. With the decoder available, a file whose decoding raises gives the failure outcome
  carrying the text of the exception and the file's name; no exception leaves
  \<open>process_single_image\<close>, whose result is an outcome on every path. In a batch the
  outcome at each position depends on that file alone: a file that decodes gives a
  success outcome whatever happened to the files before or after it.
\<close>

theorem decode_failure_isolated:
  "(\<forall>i < length fs.
     (\<forall>msg. rd (fs ! i) = Inl msg \<longrightarrow>
        snd (process_all_files True rd fs) ! i =
          (False, [''error'' \<mapsto> Str msg, ''filename'' \<mapsto> Str (path_name (fs ! i))])) \<and>
     (\<forall>ds. rd (fs ! i) = Inr ds \<longrightarrow> fst (snd (process_all_files True rd fs) ! i))) \<and>
   (\<forall>msg. rd p = Inl msg \<longrightarrow>
      process_single_image True rd p =
        (False, [''error'' \<mapsto> Str msg, ''filename'' \<mapsto> Str (path_name p)]))"
  by (simp add: process_all_files_eq process_single_image_def)

theorem decode_failure_isolated_witness:
  "(0::nat) < length [[''d'', ''bad.dcm''], [''d'', ''a.dcm'']] \<and>
   demo_dcmread [''d'', ''bad.dcm''] = Inl ''Invalid DICOM file'' \<and>
   snd (process_all_files True demo_dcmread [[''d'', ''bad.dcm''], [''d'', ''a.dcm'']]) ! 0 =
     (False, [''error'' \<mapsto> Str ''Invalid DICOM file'', ''filename'' \<mapsto> Str ''bad.dcm'']) \<and>
   (\<exists>ds. demo_dcmread [''d'', ''a.dcm''] = Inr ds) \<and>
   fst (snd (process_all_files True demo_dcmread [[''d'', ''bad.dcm''], [''d'', ''a.dcm'']]) ! 1)"
proof -
  let ?fs = "[[''d'', ''bad.dcm''], [''d'', ''a.dcm'']]"
  have zero: "(0::nat) < length ?fs" and one: "(1::nat) < length ?fs" by simp_all
  have bad: "demo_dcmread (?fs ! 0) = Inl ''Invalid DICOM file''"
    by (simp add: demo_dcmread_def path_name_def)
  have good: "demo_dcmread (?fs ! 1) = Inr [''StudyInstanceUID'' \<mapsto> Str ''S1'',
      ''PatientID'' \<mapsto> Str ''P1'', ''Modality'' \<mapsto> Str ''CT'']"
    by (simp add: demo_dcmread_def path_name_def)
  note iso0 = decode_failure_isolated [of ?fs demo_dcmread, THEN conjunct1, rule_format, OF zero]
  note iso1 = decode_failure_isolated [of ?fs demo_dcmread, THEN conjunct1, rule_format, OF one]
  from iso0 [THEN conjunct1, rule_format, OF bad] iso1 [THEN conjunct2, rule_format, OF good]
    bad good
  show ?thesis
    by (simp add: path_name_def)
qed

text \<open>
  C10. A success outcome carries a record with exactly the seven keys filename,
  patient\_id, study\_uid, series\_number, instance\_number, modality and
  study\_description; each field read from the decoder holds the decoder's value, or
  the string N/A when the decoder does not expose it. In particular study\_uid is
  present, so the key test of \<open>group_by_study\<close> succeeds on every success record.
\<close>

theorem success_record_has_all_keys:
  assumes "process_single_image inst rd p = (True, info)"
  shows "dom info = {''filename'', ''patient_id'', ''study_uid'', ''series_number'',
           ''instance_number'', ''modality'', ''study_description''} \<and>
         info ''study_uid'' \<noteq> None \<and>
         (\<exists>ds. rd p = Inr ds \<and>
            info ''filename'' = Some (Str (path_name p)) \<and>
            info ''patient_id'' = Some (case ds ''PatientID'' of None \<Rightarrow> Str ''N/A'' | Some v \<Rightarrow> v) \<and>
            info ''study_uid'' = Some (case ds ''StudyInstanceUID'' of None \<Rightarrow> Str ''N/A'' | Some v \<Rightarrow> v) \<and>
            info ''series_number'' = Some (case ds ''SeriesNumber'' of None \<Rightarrow> Str ''N/A'' | Some v \<Rightarrow> v) \<and>
            info ''instance_number'' = Some (case ds ''InstanceNumber'' of None \<Rightarrow> Str ''N/A'' | Some v \<Rightarrow> v) \<and>
            info ''modality'' = Some (case ds ''Modality'' of None \<Rightarrow> Str ''N/A'' | Some v \<Rightarrow> v) \<and>
            info ''study_description'' = Some (case ds ''StudyDescription'' of None \<Rightarrow> Str ''N/A'' | Some v \<Rightarrow> v))"
proof -
  from assms obtain ds where ds: "rd p = Inr ds" and inst: inst
    by (auto simp: process_single_image_def split: if_splits sum.splits)
  from assms ds inst have info: "info =
      [''filename'' \<mapsto> Str (path_name p),
       ''patient_id'' \<mapsto> ds_get ds ''PatientID'' (Str ''N/A''),
       ''study_uid'' \<mapsto> ds_get ds ''StudyInstanceUID'' (Str ''N/A''),
       ''series_number'' \<mapsto> ds_get ds ''SeriesNumber'' (Str ''N/A''),
       ''instance_number'' \<mapsto> ds_get ds ''InstanceNumber'' (Str ''N/A''),
       ''modality'' \<mapsto> ds_get ds ''Modality'' (Str ''N/A''),
       ''study_description'' \<mapsto> ds_get ds ''StudyDescription'' (Str ''N/A'')]"
    by (simp add: process_single_image_def)
  have d: "dom info = {''filename'', ''patient_id'', ''study_uid'', ''series_number'',
           ''instance_number'', ''modality'', ''study_description''}"
  proof -
    have "dom info = {''study_description'', ''modality'', ''instance_number'',
        ''series_number'', ''study_uid'', ''patient_id'', ''filename''}"
      unfolding info by (simp only: dom_fun_upd dom_empty option.distinct if_False)
    also have "\<dots> = {''filename'', ''patient_id'', ''study_uid'', ''series_number'',
           ''instance_number'', ''modality'', ''study_description''}"
      by (simp only: insert_commute)
    finally show ?thesis .
  qed
  have vals: "info ''filename'' = Some (Str (path_name p))"
    "info ''patient_id'' = Some (ds_get ds ''PatientID'' (Str ''N/A''))"
    "info ''study_uid'' = Some (ds_get ds ''StudyInstanceUID'' (Str ''N/A''))"
    "info ''series_number'' = Some (ds_get ds ''SeriesNumber'' (Str ''N/A''))"
    "info ''instance_number'' = Some (ds_get ds ''InstanceNumber'' (Str ''N/A''))"
    "info ''modality'' = Some (ds_get ds ''Modality'' (Str ''N/A''))"
    "info ''study_description'' = Some (ds_get ds ''StudyDescription'' (Str ''N/A''))"
    unfolding info by simp_all
  from d vals ds show ?thesis by (simp add: ds_get_def)
qed

theorem success_record_has_all_keys_witness:
  "dom (snd (process_single_image True demo_dcmread [''d'', ''nouid1.dcm''])) =
     {''filename'', ''patient_id'', ''study_uid'', ''series_number'',
      ''instance_number'', ''modality'', ''study_description''} \<and>
   snd (process_single_image True demo_dcmread [''d'', ''nouid1.dcm'']) ''study_uid'' =
     Some (Str ''N/A'') \<and>
   snd (process_single_image True demo_dcmread [''d'', ''nouid1.dcm'']) ''patient_id'' =
     Some (Str ''P7'')"
proof -
  let ?p = "[''d'', ''nouid1.dcm'']"
  have rd: "demo_dcmread ?p = Inr [''PatientID'' \<mapsto> Str ''P7'']"
    by (simp add: demo_dcmread_def path_name_def)
  have ok: "process_single_image True demo_dcmread ?p =
      (True, snd (process_single_image True demo_dcmread ?p))"
    by (simp add: process_single_image_def rd)
  from success_record_has_all_keys [OF ok] rd show ?thesis
    by auto
qed

section \<open>Properties of grouping, discovery and the error report\<close>

lemma first_occurrences_snoc:
  "first_occurrences (xs @ [u]) =
     (if u \<in> set xs then first_occurrences xs else first_occurrences xs @ [u])"
  by (simp add: first_occurrences_def)

lemma first_occurrences_set [simp]: "set (first_occurrences xs) = set xs"
  by (simp add: first_occurrences_def)

lemma first_occurrences_distinct [simp]: "distinct (first_occurrences xs)"
  by (simp add: first_occurrences_def)

lemma study_ids_snoc:
  "study_ids (rs @ [r]) =
     (case r ''study_uid'' of None \<Rightarrow> study_ids rs | Some u \<Rightarrow> study_ids rs @ [u])"
  by (simp add: study_ids_def List.map_filter_def split: option.splits)

lemma study_ids_set:
  "set (study_ids rs) = {k. \<exists>r \<in> set rs. r ''study_uid'' = Some k}"
  by (induction rs) (auto simp: study_ids_def List.map_filter_def split: option.splits)

lemma append_to_map:
  "distinct ks \<Longrightarrow>
   append_to u r (map (\<lambda>k. (k, f k)) ks) =
     map (\<lambda>k. (k, if k = u then f k @ [r] else f k)) ks"
  by (induction ks) auto

lemma group_by_study_eq:
  "group_by_study rs =
     map (\<lambda>k. (k, records_of k rs)) (first_occurrences (study_ids rs))"
proof (induction rs rule: rev_induct)
  case Nil
  then show ?case
    by (simp add: group_by_study_def study_ids_def first_occurrences_def List.map_filter_def)
next
  case (snoc r rs)
  let ?G = "group_by_study rs"
  let ?ks = "first_occurrences (study_ids rs)"
  have step: "group_by_study (rs @ [r]) = group_step r ?G"
    by (simp add: group_by_study_def)
  show ?case
  proof (cases "r ''study_uid''")
    case None
    then have "records_of k (rs @ [r]) = records_of k rs" for k
      by (simp add: records_of_def)
    with None snoc step show ?thesis
      by (simp add: group_step_def study_ids_snoc)
  next
    case (Some u)
    let ?ks' = "first_occurrences (study_ids rs @ [u])"
    have keys: "set (map fst ?G) = set (study_ids rs)"
      using snoc by (simp add: comp_def)
    have new: "u \<notin> set (study_ids rs) \<Longrightarrow> records_of u rs = []"
      by (auto simp: study_ids_set records_of_def filter_empty_conv)
    have pre: "(if u \<notin> set (map fst ?G) then ?G @ [(u, [])] else ?G) =
        map (\<lambda>k. (k, records_of k rs)) ?ks'"
      using keys new snoc by (simp add: first_occurrences_snoc)
    have "group_step r ?G = append_to u r (map (\<lambda>k. (k, records_of k rs)) ?ks')"
      using Some pre by (simp add: group_step_def)
    also have "\<dots> = map (\<lambda>k. (k, if k = u then records_of k rs @ [r] else records_of k rs)) ?ks'"
      by (rule append_to_map) simp
    also have "\<dots> = map (\<lambda>k. (k, records_of k (rs @ [r]))) ?ks'"
      using Some by (auto simp: records_of_def)
    finally show ?thesis
      using Some step by (simp add: study_ids_snoc)
  qed
qed

text \<open>
  C8, as stated, fails: a record whose study identifier is the empty string is put in a
  group of its own, with the empty string as key, so there is one group where the number
  of distinct non-empty identifiers is zero.
\<close>

theorem empty_study_uid_counterexample:
  "group_by_study blank_uid_records = [(Str [], blank_uid_records)] \<and>
   length (group_by_study blank_uid_records) = 1 \<and>
   length (nonempty_study_ids blank_uid_records) = 0"
  by (simp add: group_by_study_def group_step_def blank_uid_records_def nonempty_study_ids_def
      study_ids_def List.map_filter_def)

text \<open>
  C8, amended. For every list of records: every record in a group stores, under the key
  \<open>study_uid\<close>, the value that is the group's key; the keys are distinct, and their
  number is the number of distinct values stored under \<open>study_uid\<close> among the records
  that have this key, whatever the value; the groups appear in the order in which their
  keys first occur; each group holds the records of its key in processing order, and a
  record without the key \<open>study_uid\<close> is in no group.
\<close>

theorem groups_by_study_identifier:
  "(\<forall>(k, g) \<in> set (group_by_study rs). \<forall>r \<in> set g. r ''study_uid'' = Some k) \<and>
   distinct (map fst (group_by_study rs)) \<and>
   length (group_by_study rs) = card {k. \<exists>r \<in> set rs. r ''study_uid'' = Some k} \<and>
   map fst (group_by_study rs) = first_occurrences (study_ids rs) \<and>
   (\<forall>(k, g) \<in> set (group_by_study rs). g = filter (\<lambda>r. r ''study_uid'' = Some k) rs)"
proof -
  have keys: "map fst (group_by_study rs) = first_occurrences (study_ids rs)"
    by (simp add: group_by_study_eq comp_def)
  have "length (group_by_study rs) = length (first_occurrences (study_ids rs))"
    by (simp add: group_by_study_eq)
  also have "\<dots> = card (set (first_occurrences (study_ids rs)))"
    using distinct_card [OF first_occurrences_distinct, of "study_ids rs"] by (simp only:)
  finally have len: "length (group_by_study rs) = card {k. \<exists>r \<in> set rs. r ''study_uid'' = Some k}"
    by (simp add: study_ids_set)
  have grp: "\<forall>(k, g) \<in> set (group_by_study rs). g = filter (\<lambda>r. r ''study_uid'' = Some k) rs"
    by (auto simp: group_by_study_eq records_of_def)
  then have "\<forall>(k, g) \<in> set (group_by_study rs). \<forall>r \<in> set g. r ''study_uid'' = Some k"
    by fastforce
  with keys len grp show ?thesis by simp
qed


theorem groups_by_study_identifier_witness:
  "(Str ''S1'', [demo_records ! 0, demo_records ! 3]) \<in> set (group_by_study demo_records) \<and>
   (demo_records ! 3) ''study_uid'' = Some (Str ''S1'') \<and>
   map fst (group_by_study demo_records) = [Str ''S1'', Str ''S2''] \<and>
   length (group_by_study demo_records) = 2"
proof -
  have g: "group_by_study demo_records =
      [(Str ''S1'', [demo_records ! 0, demo_records ! 3]), (Str ''S2'', [demo_records ! 2])]"
    by (simp add: group_by_study_def group_step_def demo_records_def)
  then have m: "(Str ''S1'', [demo_records ! 0, demo_records ! 3]) \<in> set (group_by_study demo_records)"
    by simp
  have r: "demo_records ! 3 \<in> set [demo_records ! 0, demo_records ! 3]" by simp
  note t = groups_by_study_identifier [of demo_records]
  from t have "\<forall>(k, g) \<in> set (group_by_study demo_records). \<forall>r \<in> set g. r ''study_uid'' = Some k"
    by blast
  with m r have a: "(demo_records ! 3) ''study_uid'' = Some (Str ''S1'')" by blast
  from t have "map fst (group_by_study demo_records) = first_occurrences (study_ids demo_records)"
    by blast
  then have b: "map fst (group_by_study demo_records) = [Str ''S1'', Str ''S2'']"
    by (simp add: first_occurrences_def study_ids_def List.map_filter_def demo_records_def)
  from b have "length (map fst (group_by_study demo_records)) = 2" by simp
  then have c: "length (group_by_study demo_records) = 2" by (simp only: length_map)
  from m a b c show ?thesis by blast
qed

text \<open>
  C3. Records whose decoded file exposes no study identifier are to be left out of every
  group. The code stores the string N/A under \<open>study_uid\<close> for such a file, the key
  test of \<open>group_by_study\<close> succeeds, and the records of unrelated files without an
  identifier are collected in one group with the key N/A: for the files nouid1.dcm,
  a.dcm (study S1) and nouid2.dcm the groups are N/A with nouid1.dcm and nouid2.dcm, and
  S1 with a.dcm.
\<close>

theorem missing_study_uid_grouped_under_sentinel:
  "map (\<lambda>(k, g). (k, map (\<lambda>r. r ''filename'') g))
     (group_by_study (successful_results (snd (process_all_files True demo_dcmread
        [[''d'', ''nouid1.dcm''], [''d'', ''a.dcm''], [''d'', ''nouid2.dcm'']])))) =
   [(Str ''N/A'', [Some (Str ''nouid1.dcm''), Some (Str ''nouid2.dcm'')]),
    (Str ''S1'', [Some (Str ''a.dcm'')])]"
  by (simp add: process_all_files_eq process_single_image_def demo_dcmread_def path_name_def
      successful_results_def group_by_study_def group_step_def ds_get_def)

text \<open>
  What holds of file discovery on every tree: the result is sorted, every path in it lies
  strictly below the search root, and its elements are the entries whose name ends with
  one of the four extensions, whatever their kind, together with the regular files
  without suffix that are not named .DS\_Store.
\<close>

lemma find_dicom_files_sorted: "sorted (find_dicom_files directory tree)"
  by (simp add: find_dicom_files_def Let_def)

lemma walk_below:
  "e \<in> set (walk p t) \<Longrightarrow> \<exists>rest. rest \<noteq> [] \<and> fst e = p @ rest"
  "e \<in> set (walk_entries p es) \<Longrightarrow> \<exists>rest. rest \<noteq> [] \<and> fst e = p @ rest"
proof (induction p t and p es arbitrary: e and e rule: walk_walk_entries.induct)
  case (4 p n c es)
  from "4.prems" consider "e = (p @ [n], c)" | "e \<in> set (walk (p @ [n]) c)"
    | "e \<in> set (walk_entries p es)" by auto
  then show ?case
  proof cases
    case 1
    then show ?thesis by simp
  next
    case 2
    from "4.IH"(1) [OF 2] obtain rest where "fst e = (p @ [n]) @ rest" by blast
    then have "fst e = p @ (n # rest)" by simp
    then show ?thesis by blast
  next
    case 3
    from "4.IH"(2) [OF 3] show ?thesis .
  qed
qed simp_all

lemma find_dicom_files_set:
  "set (find_dicom_files directory tree) =
     fst ` {e \<in> set (walk directory tree).
        (\<exists>ext \<in> set extensions. endswith (path_name (fst e)) ext) \<or>
        (is_file e \<and> path_suffix (fst e) = [] \<and> path_name (fst e) \<noteq> ''.DS_Store'')}"
  by (auto simp: find_dicom_files_def Let_def rglob_def endswith_def)

lemma find_dicom_files_below:
  assumes "p \<in> set (find_dicom_files directory tree)"
  shows "\<exists>rest. rest \<noteq> [] \<and> p = directory @ rest"
proof -
  from assms obtain e where "e \<in> set (walk directory tree)" "p = fst e"
    unfolding find_dicom_files_set by blast
  with walk_below(1) show ?thesis by blast
qed

text \<open>
  A regular file named exactly like an extension has no suffix and matches the extension
  pattern, so both loops add it and it is listed twice.
\<close>

lemma file_named_as_extension_listed_twice:
  "find_dicom_files [''data''] (Dir [(''.dcm'', File)]) =
     [[''data'', ''.dcm''], [''data'', ''.dcm'']]"
  by code_simp

text \<open>
  C5. File discovery is to return regular files only. The four extension patterns are
  matched against every entry, directories included, and only the loop for names without
  extension asks \<open>is_file\<close>: below the root data, with a directory scan.dcm holding the
  file IM1 and a file b.dcm, the result contains the directory data/scan.dcm.
\<close>

theorem directory_with_extension_is_returned:
  "find_dicom_files [''data''] (Dir [(''scan.dcm'', Dir [(''IM1'', File)]), (''b.dcm'', File)]) =
     [[''data'', ''b.dcm''], [''data'', ''scan.dcm''], [''data'', ''scan.dcm'', ''IM1'']] \<and>
   walk [''data''] (Dir [(''scan.dcm'', Dir [(''IM1'', File)]), (''b.dcm'', File)]) =
     [([''data'', ''scan.dcm''], Dir [(''IM1'', File)]),
      ([''data'', ''scan.dcm'', ''IM1''], File),
      ([''data'', ''b.dcm''], File)] \<and>
   \<not> is_file ([''data'', ''scan.dcm''], Dir [(''IM1'', File)])"
  by code_simp

lemma collect_errors_total:
  assumes "\<forall>x \<in> set results. \<not> fst x \<longrightarrow> snd x ''filename'' \<noteq> None"
  shows "\<exists>errors. collect_errors results = Inr errors \<and>
     map (\<lambda>e. Some (fst e)) errors =
       map (\<lambda>x. snd x ''filename'') (filter (\<lambda>x. \<not> fst x) results) \<and>
     map snd errors =
       map (\<lambda>x. ds_get (snd x) ''error'' (Str ''Unknown error'')) (filter (\<lambda>x. \<not> fst x) results)"
  using assms
proof (induction results)
  case Nil
  then show ?case by simp
next
  case (Cons a results)
  then obtain errors where IH: "collect_errors results = Inr errors"
     "map (\<lambda>e. Some (fst e)) errors =
       map (\<lambda>x. snd x ''filename'') (filter (\<lambda>x. \<not> fst x) results)"
     "map snd errors =
       map (\<lambda>x. ds_get (snd x) ''error'' (Str ''Unknown error'')) (filter (\<lambda>x. \<not> fst x) results)"
    by auto
  obtain success result where a: "a = (success, result)" by (cases a)
  show ?case
  proof (cases success)
    case True
    with a IH show ?thesis by simp
  next
    case False
    with a Cons.prems obtain fn where "result ''filename'' = Some fn" by auto
    with a False IH show ?thesis by simp
  qed
qed

text \<open>
  C9. For every list of outcomes whose failures carry a file name, the error section of
  the summary is printed, it has at most 14 lines whatever the number of failures, and
  it is empty when there is no failure. Otherwise it consists of the three header lines,
  one line for each of the first ten failures, in order, and, when there are more than
  ten failures, one last line giving the number of the remaining ones.
\<close>

theorem error_report_bounded:
  assumes "\<forall>x \<in> set results. \<not> fst x \<longrightarrow> snd x ''filename'' \<noteq> None"
  shows "\<exists>errors lines.
     collect_errors results = Inr errors \<and>
     display_summary_errors results = Inr lines \<and>
     length errors = length (filter (\<lambda>x. \<not> fst x) results) \<and>
     map (\<lambda>e. Some (fst e)) errors =
       map (\<lambda>x. snd x ''filename'') (filter (\<lambda>x. \<not> fst x) results) \<and>
     length lines \<le> 14 \<and>
     (errors = [] \<longrightarrow> lines = []) \<and>
     (errors \<noteq> [] \<longrightarrow>
        take 3 lines = errors_header \<and>
        take (min 10 (length errors)) (drop 3 lines) = map error_line (take 10 errors) \<and>
        drop (3 + min 10 (length errors)) lines =
          (if 10 < length errors then [more_line (length errors - 10)] else []))"
proof -
  from collect_errors_total [OF assms] obtain errors where
    e: "collect_errors results = Inr errors" and
    f: "map (\<lambda>e. Some (fst e)) errors =
       map (\<lambda>x. snd x ''filename'') (filter (\<lambda>x. \<not> fst x) results)"
    by blast
  from f have len: "length errors = length (filter (\<lambda>x. \<not> fst x) results)"
    by (rule map_eq_imp_length_eq)
  define lines where "lines = (if errors \<noteq> []
               then errors_header @ map error_line (take 10 errors) @
                    (if length errors > 10 then [more_line (length errors - 10)] else [])
               else [])"
  have d: "display_summary_errors results = Inr lines"
    by (simp add: display_summary_errors_def e lines_def)
  have h: "length errors_header = 3" by (simp add: errors_header_def)
  have b: "length lines \<le> 14" by (simp add: lines_def h)
  have n: "errors = [] \<longrightarrow> lines = []" by (simp add: lines_def)
  have t: "errors \<noteq> [] \<longrightarrow>
        take 3 lines = errors_header \<and>
        take (min 10 (length errors)) (drop 3 lines) = map error_line (take 10 errors) \<and>
        drop (3 + min 10 (length errors)) lines =
          (if 10 < length errors then [more_line (length errors - 10)] else [])"
    by (simp add: lines_def h min_def)
  from e d len f b n t show ?thesis by blast
qed

theorem error_report_bounded_witness:
  "\<exists>lines. display_summary_errors
      (snd (process_all_files True demo_dcmread (replicate 12 [''d'', ''bad.dcm'']))) = Inr lines \<and>
     length lines = 14 \<and>
     lines ! 3 = ''  bad.dcm: Invalid DICOM file'' \<and>
     lines ! 13 = ''  ... and 2 more errors''"
proof -
  let ?R = "snd (process_all_files True demo_dcmread (replicate 12 [''d'', ''bad.dcm'']))"
  have R: "?R = replicate 12 (False, [''error'' \<mapsto> Str ''Invalid DICOM file'',
      ''filename'' \<mapsto> Str ''bad.dcm''])"
    by (simp add: process_all_files_eq process_single_image_def demo_dcmread_def path_name_def)
  have hyp: "\<forall>x \<in> set ?R. \<not> fst x \<longrightarrow> snd x ''filename'' \<noteq> None"
    unfolding R by simp
  from error_report_bounded [OF hyp] obtain errors lines where
    e: "collect_errors ?R = Inr errors" and
    d: "display_summary_errors ?R = Inr lines" and
    len: "length errors = length (filter (\<lambda>x. \<not> fst x) ?R)" and
    b: "length lines \<le> 14"
    by blast
  have "display_summary_errors ?R = Inr (errors_header @
      replicate 10 ''  bad.dcm: Invalid DICOM file'' @ [''  ... and 2 more errors''])"
    unfolding R
    by (simp add: display_summary_errors_def eval_nat_numeral error_line_def more_line_def
        py_str_def ds_get_def show_nat.simps)
  with d have "lines = errors_header @
      replicate 10 ''  bad.dcm: Invalid DICOM file'' @ [''  ... and 2 more errors'']"
    by simp
  then have "length lines = 14 \<and> lines ! 3 = ''  bad.dcm: Invalid DICOM file'' \<and>
     lines ! 13 = ''  ... and 2 more errors''"
    by (simp add: errors_header_def nth_append eval_nat_numeral)
  with d show ?thesis by blast
qed


text \<open>
  The outcomes of a batch run, made with the decoder available, meet the condition of
  the error report: every failure carries the file's name.
\<close>

lemma batch_failures_have_filename:
  "\<forall>x \<in> set (snd (process_all_files True rd fs)). \<not> fst x \<longrightarrow> snd x ''filename'' \<noteq> None"
  by (auto simp: process_all_files_eq process_single_image_def split: sum.splits)

section \<open>Properties of the filters\<close>

lemma np_percentile_interp:
  "np_percentile a q =
     (if q < 0 \<or> 100 < q then Inl (ValueError ''Percentiles must be in the range [0, 100]'')
      else if concat a = [] then Inl IndexError
      else Inr (interp (sort (concat a)) ((real (length (concat a)) - 1) * q / 100)))"
  by (simp add: np_percentile_def interp_def Let_def)

lemma floor_index:
  assumes "0 \<le> h"
  shows "real (nat \<lfloor>h\<rfloor>) \<le> h" "h < real (nat \<lfloor>h\<rfloor>) + 1"
proof -
  from assms have "0 \<le> \<lfloor>h\<rfloor>" by simp
  then have "real (nat \<lfloor>h\<rfloor>) = of_int \<lfloor>h\<rfloor>" by simp
  then show "real (nat \<lfloor>h\<rfloor>) \<le> h" "h < real (nat \<lfloor>h\<rfloor>) + 1"
    by linarith+
qed

lemma interp_bounds:
  assumes "sorted s" "0 \<le> h" "h \<le> real (length s) - 1"
  shows "s ! nat \<lfloor>h\<rfloor> \<le> interp s h"
    and "nat \<lfloor>h\<rfloor> + 1 < length s \<Longrightarrow> interp s h \<le> s ! (nat \<lfloor>h\<rfloor> + 1)"
proof -
  let ?i = "nat \<lfloor>h\<rfloor>"
  let ?g = "h - real ?i"
  from floor_index [OF assms(2)] have g: "0 \<le> ?g" "?g \<le> 1" by linarith+
  from floor_index(1) [OF assms(2)] assms(3) have i: "?i \<le> length s - 1"
    by linarith
  show "s ! ?i \<le> interp s h"
  proof (cases "?i + 1 < length s")
    case True
    with assms(1) have "s ! ?i \<le> s ! (?i + 1)"
      by (simp add: sorted_nth_mono)
    then have "0 \<le> ?g * (s ! (?i + 1) - s ! ?i)" using g by simp
    with True show ?thesis by (simp add: interp_def Let_def)
  next
    case False
    with i have "?i = length s - 1" by linarith
    with False show ?thesis by (simp add: interp_def Let_def)
  qed
  show "interp s h \<le> s ! (?i + 1)" if lt: "?i + 1 < length s"
  proof -
    from assms(1) lt have d: "0 \<le> s ! (?i + 1) - s ! ?i"
      by (simp add: sorted_nth_mono)
    have "?g * (s ! (?i + 1) - s ! ?i) \<le> 1 * (s ! (?i + 1) - s ! ?i)"
      using g d by (intro mult_right_mono) auto
    with lt show ?thesis by (simp add: interp_def Let_def)
  qed
qed

lemma interp_mono:
  assumes "sorted s" "0 \<le> h1" "h1 \<le> h2" "h2 \<le> real (length s) - 1"
  shows "interp s h1 \<le> interp s h2"
proof -
  let ?i1 = "nat \<lfloor>h1\<rfloor>" and ?i2 = "nat \<lfloor>h2\<rfloor>"
  from assms have h2: "0 \<le> h2" and h1: "h1 \<le> real (length s) - 1" by linarith+
  have le: "?i1 \<le> ?i2" using assms(3) by (intro nat_mono floor_mono)
  from floor_index(1) [OF h2] assms(4) have i2: "?i2 \<le> length s - 1" by linarith
  show ?thesis
  proof (cases "?i1 = ?i2")
    case True
    show ?thesis
    proof (cases "?i1 + 1 < length s")
      case lt: True
      with assms(1) have d: "0 \<le> s ! (?i1 + 1) - s ! ?i1"
        by (simp add: sorted_nth_mono)
      have "(h1 - real ?i1) * (s ! (?i1 + 1) - s ! ?i1) \<le> (h2 - real ?i1) * (s ! (?i1 + 1) - s ! ?i1)"
        using assms(3) d by (intro mult_right_mono) auto
      with lt True show ?thesis by (simp add: interp_def Let_def)
    next
      case False
      with True show ?thesis by (simp add: interp_def Let_def)
    qed
  next
    case False
    with le have lt: "?i1 + 1 \<le> ?i2" by linarith
    from floor_index(1) [OF h2] assms(4) lt have n: "?i1 + 1 < length s" "?i2 < length s"
      by linarith+
    have "interp s h1 \<le> s ! (?i1 + 1)"
      using interp_bounds(2) [OF assms(1,2) h1] n by simp
    also have "\<dots> \<le> s ! ?i2"
      using assms(1) lt n by (simp add: sorted_nth_mono)
    also have "\<dots> \<le> interp s h2"
      by (rule interp_bounds(1) [OF assms(1) h2 assms(4)])
    finally show ?thesis .
  qed
qed

lemma np_percentile_mono:
  assumes "concat a \<noteq> []" "0 \<le> q1" "q1 \<le> q2" "q2 \<le> 100"
  shows "\<exists>p1 p2. np_percentile a q1 = Inr p1 \<and> np_percentile a q2 = Inr p2 \<and> p1 \<le> p2"
proof -
  let ?s = "sort (concat a)"
  let ?n = "real (length (concat a))"
  from assms(1) have n: "1 \<le> ?n" by (cases "concat a") auto
  have a: "0 \<le> (?n - 1) * q1 / 100" using n assms(2) by simp
  have b: "(?n - 1) * q1 / 100 \<le> (?n - 1) * q2 / 100"
    using n assms(3) by (simp add: mult_left_mono divide_right_mono)
  have "(?n - 1) * q2 \<le> (?n - 1) * 100"
    using n assms(4) by (intro mult_left_mono) auto
  then have c: "(?n - 1) * q2 / 100 \<le> real (length ?s) - 1" by simp
  from interp_mono [OF sorted_sort a b c] assms show ?thesis
    by (simp add: np_percentile_interp)
qed


lemma interp_between:
  assumes "sorted s" "0 \<le> h" "h \<le> real (length s) - 1" "s \<noteq> []"
  shows "\<exists>x \<in> set s. x \<le> interp s h" and "\<exists>y \<in> set s. interp s h \<le> y"
proof -
  let ?i = "nat \<lfloor>h\<rfloor>"
  from assms(4) have pos: "0 < length s" by simp
  from floor_index(1) [OF assms(2)] assms(3) pos have i: "?i < length s"
    by linarith
  then have "s ! ?i \<in> set s" by simp
  with interp_bounds(1) [OF assms(1-3)] show "\<exists>x \<in> set s. x \<le> interp s h" by blast
  show "\<exists>y \<in> set s. interp s h \<le> y"
  proof (cases "?i + 1 < length s")
    case True
    then have "s ! (?i + 1) \<in> set s" by simp
    with interp_bounds(2) [OF assms(1-3) True] show ?thesis by blast
  next
    case False
    then have "interp s h = s ! (length s - 1)" by (simp add: interp_def Let_def)
    moreover have "s ! (length s - 1) \<in> set s" using pos by simp
    ultimately show ?thesis by auto
  qed
qed

lemma np_percentile_between:
  assumes "concat a \<noteq> []" "0 \<le> q" "q \<le> 100"
  shows "\<exists>p. np_percentile a q = Inr p \<and> (\<exists>x \<in> set (concat a). x \<le> p) \<and>
           (\<exists>y \<in> set (concat a). p \<le> y)"
proof -
  let ?s = "sort (concat a)"
  let ?n = "real (length (concat a))"
  from assms(1) have n: "1 \<le> ?n" by (cases "concat a") auto
  have a: "0 \<le> (?n - 1) * q / 100" using n assms(2) by simp
  have "(?n - 1) * q \<le> (?n - 1) * 100"
    using n assms(3) by (intro mult_left_mono) auto
  then have c: "(?n - 1) * q / 100 \<le> real (length ?s) - 1" by simp
  have ne: "?s \<noteq> []" using assms(1) by (metis length_0_conv length_sort)
  from interp_between [OF sorted_sort a c ne] assms show ?thesis
    by (simp add: np_percentile_interp)
qed

lemma apply_contrast_enhancement_rescale:
  assumes "np_percentile img lo = Inr p_low" "np_percentile img hi = Inr p_high"
  shows "apply_contrast_enhancement img lo hi = Inr (map (map (rescale p_low p_high)) img)"
  using assms by (simp add: apply_contrast_enhancement_def np_clip_def rescale_def comp_def)

lemma rescale_range:
  assumes "p_low < p_high"
  shows "\<exists>r. rescale p_low p_high x = Fin r \<and> 0 \<le> r \<and> r \<le> 1 \<and>
           (x \<le> p_low \<longrightarrow> r = 0) \<and> (p_high \<le> x \<longrightarrow> r = 1)"
proof -
  let ?c = "min (max x p_low) p_high"
  let ?r = "(?c - p_low) / (p_high - p_low)"
  from assms have d: "0 < p_high - p_low" by simp
  with assms have eq: "rescale p_low p_high x = Fin ?r"
    by (simp add: rescale_def)
  from assms have c: "p_low \<le> ?c" "?c \<le> p_high" by (simp_all add: min_def max_def)
  from c d have r0: "0 \<le> ?r" by simp
  from c d have r1: "?r \<le> 1" by simp
  have z: "x \<le> p_low \<longrightarrow> ?r = 0" using assms by (simp add: min_def max_def)
  have o: "p_high \<le> x \<longrightarrow> ?r = 1" using assms by (simp add: min_def max_def)
  from eq r0 r1 z o show ?thesis by blast
qed

text \<open>
  C7. For an image with at least one sample, percentiles \<open>lo \<le> hi\<close> in [0, 100] and
  distinct low and high percentile values: contrast enhancement returns an image of the
  same shape whose values are all finite and in [0, 1]; every sample at or below the low
  percentile value maps to exactly 0 and every sample at or above the high one to
  exactly 1, and both 0 and 1 occur in the output. With percentiles 0 and 100 the array
  [0, 50, 100] maps to [0, 0.5, 1]. Finite samples are real numbers here.
\<close>

theorem contrast_enhancement_range:
  assumes "concat img \<noteq> []" "0 \<le> lo" "lo \<le> hi" "hi \<le> 100"
    and "np_percentile img lo \<noteq> np_percentile img hi"
  shows "(\<exists>p_low p_high out.
      np_percentile img lo = Inr p_low \<and> np_percentile img hi = Inr p_high \<and>
      p_low < p_high \<and>
      apply_contrast_enhancement img lo hi = Inr out \<and>
      length out = length img \<and>
      (\<forall>i < length img. length (out ! i) = length (img ! i) \<and>
         (\<forall>j < length (img ! i). \<exists>r. out ! i ! j = Fin r \<and> 0 \<le> r \<and> r \<le> 1 \<and>
             (img ! i ! j \<le> p_low \<longrightarrow> r = 0) \<and> (p_high \<le> img ! i ! j \<longrightarrow> r = 1))) \<and>
      Fin 0 \<in> set (concat out) \<and> Fin 1 \<in> set (concat out)) \<and>
    apply_contrast_enhancement [[0, 50, 100]] 0 100 = Inr [[Fin 0, Fin (1 / 2), Fin 1]]"
proof -
  from np_percentile_mono [OF assms(1-4)] obtain p_low p_high where
    p: "np_percentile img lo = Inr p_low" "np_percentile img hi = Inr p_high" "p_low \<le> p_high"
    by blast
  with assms(5) have lt: "p_low < p_high" by simp
  let ?f = "rescale p_low p_high"
  let ?out = "map (map ?f) img"
  have out: "apply_contrast_enhancement img lo hi = Inr ?out"
    by (rule apply_contrast_enhancement_rescale [OF p(1,2)])
  have pt: "\<forall>i < length img. length (?out ! i) = length (img ! i) \<and>
         (\<forall>j < length (img ! i). \<exists>r. ?out ! i ! j = Fin r \<and> 0 \<le> r \<and> r \<le> 1 \<and>
             (img ! i ! j \<le> p_low \<longrightarrow> r = 0) \<and> (p_high \<le> img ! i ! j \<longrightarrow> r = 1))"
    using rescale_range [OF lt] by simp
  have cc: "concat ?out = map ?f (concat img)"
    by (simp add: map_concat)
  from assms have hi0: "0 \<le> hi" and lo100: "lo \<le> 100" by linarith+
  from np_percentile_between [OF assms(1,2) lo100] p(1)
  obtain x where x: "x \<in> set (concat img)" "x \<le> p_low" by auto
  from rescale_range [OF lt, of x] x(2) have "?f x = Fin 0" by auto
  with x(1) have zero: "Fin 0 \<in> set (concat ?out)"
    unfolding cc by (metis image_eqI set_map)
  from np_percentile_between [OF assms(1) hi0 assms(4)] p(2)
  obtain y where y: "y \<in> set (concat img)" "p_high \<le> y" by auto
  from rescale_range [OF lt, of y] y(2) have "?f y = Fin 1" by auto
  with y(1) have one: "Fin 1 \<in> set (concat ?out)"
    unfolding cc by (metis image_eqI set_map)
  have len: "length ?out = length img" by simp
  have scen: "apply_contrast_enhancement [[0, 50, 100]] 0 100 = Inr [[Fin 0, Fin (1 / 2), Fin 1]]"
    by (simp add: apply_contrast_enhancement_def np_percentile_def np_clip_def)
  from p(1,2) lt out len pt zero one have
    "\<exists>p_low p_high out.
      np_percentile img lo = Inr p_low \<and> np_percentile img hi = Inr p_high \<and>
      p_low < p_high \<and>
      apply_contrast_enhancement img lo hi = Inr out \<and>
      length out = length img \<and>
      (\<forall>i < length img. length (out ! i) = length (img ! i) \<and>
         (\<forall>j < length (img ! i). \<exists>r. out ! i ! j = Fin r \<and> 0 \<le> r \<and> r \<le> 1 \<and>
             (img ! i ! j \<le> p_low \<longrightarrow> r = 0) \<and> (p_high \<le> img ! i ! j \<longrightarrow> r = 1))) \<and>
      Fin 0 \<in> set (concat out) \<and> Fin 1 \<in> set (concat out)"
    by blast
  with scen show ?thesis by blast
qed


theorem contrast_enhancement_range_witness:
  "\<exists>out. apply_contrast_enhancement [[0, 50, 100]] 0 100 = Inr out \<and>
     length out = 1 \<and> Fin 0 \<in> set (concat out) \<and> Fin 1 \<in> set (concat out)"
proof -
  have a: "concat [[0, 50, 100 :: real]] \<noteq> []" by simp
  have b: "(0::real) \<le> 0" "(0::real) \<le> 100" "(100::real) \<le> 100" by simp_all
  have c: "np_percentile [[0, 50, 100]] 0 \<noteq> np_percentile [[0, 50, 100]] 100"
    by (simp add: np_percentile_def)
  from contrast_enhancement_range [OF a b c] show ?thesis
    by auto
qed

text \<open>
  C4, as stated, fails: no guard is present. On a constant image the low and high
  percentile values are equal and every sample of the contrast-enhanced image is NaN; for
  a blank baseline (mean and standard deviation zero) the reported changes are NaN, or
  infinite when the filtered mean is not zero.
\<close>

theorem degenerate_statistics_counterexample:
  "apply_contrast_enhancement [[5, 5], [5, 5]] 2 98 = Inr [[NaN, NaN], [NaN, NaN]] \<and>
   mean_change (display_filter_comparison blank_stats blank_stats ''Gaussian Blur'') = NaN \<and>
   std_change (display_filter_comparison blank_stats blank_stats ''Gaussian Blur'') = NaN \<and>
   mean_change (display_filter_comparison blank_stats (blank_stats\<lparr>s_mean := Fin 3\<rparr>)
     ''Edge Detection'') = PInf"
  by (simp add: apply_contrast_enhancement_def np_percentile_def np_clip_def
      display_filter_comparison_def blank_stats_def)

lemma rescale_degenerate: "rescale p p x = NaN"
  by (simp add: rescale_def min_def max_def)

lemma change_zero_baseline: "\<not> is_finite (fmul (fdiv (fsub v (Fin 0)) (Fin 0)) (Fin 100))"
  by (cases v) auto

lemma change_nonzero_baseline:
  "m \<noteq> 0 \<Longrightarrow> fmul (fdiv (fsub (Fin m') (Fin m)) (Fin m)) (Fin 100) = Fin ((m' - m) / m * 100)"
  by simp

text \<open>
  C4, amended. Degenerate statistics are not guarded. When the low and high percentile
  values are equal, contrast enhancement returns NaN at every sample. When the baseline
  mean (standard deviation) is zero, the reported change of the mean (standard deviation)
  is not finite, whatever the filtered value. When the baseline statistic is finite and
  not zero and the filtered one is finite, the change is the finite number
  (filtered - baseline) / baseline * 100.
\<close>

theorem degenerate_statistics_unguarded:
  "(np_percentile img lo = Inr p \<and> np_percentile img hi = Inr p \<longrightarrow>
      apply_contrast_enhancement img lo hi = Inr (map (map (\<lambda>x. NaN)) img)) \<and>
   (s_mean original = Fin 0 \<longrightarrow>
      \<not> is_finite (mean_change (display_filter_comparison original filtered name))) \<and>
   (s_std original = Fin 0 \<longrightarrow>
      \<not> is_finite (std_change (display_filter_comparison original filtered name))) \<and>
   (\<forall>m m'. s_mean original = Fin m \<and> m \<noteq> 0 \<and> s_mean filtered = Fin m' \<longrightarrow>
      mean_change (display_filter_comparison original filtered name) =
        Fin ((m' - m) / m * 100)) \<and>
   (\<forall>d d'. s_std original = Fin d \<and> d \<noteq> 0 \<and> s_std filtered = Fin d' \<longrightarrow>
      std_change (display_filter_comparison original filtered name) =
        Fin ((d' - d) / d * 100))"
proof -
  have a: "np_percentile img lo = Inr p \<and> np_percentile img hi = Inr p \<longrightarrow>
      apply_contrast_enhancement img lo hi = Inr (map (map (\<lambda>x. NaN)) img)"
    by (simp add: apply_contrast_enhancement_rescale rescale_degenerate)
  have b: "s_mean original = Fin 0 \<longrightarrow>
      \<not> is_finite (mean_change (display_filter_comparison original filtered name))"
    using change_zero_baseline by (simp add: display_filter_comparison_def)
  have c: "s_std original = Fin 0 \<longrightarrow>
      \<not> is_finite (std_change (display_filter_comparison original filtered name))"
    using change_zero_baseline by (simp add: display_filter_comparison_def)
  have d: "\<forall>m m'. s_mean original = Fin m \<and> m \<noteq> 0 \<and> s_mean filtered = Fin m' \<longrightarrow>
      mean_change (display_filter_comparison original filtered name) =
        Fin ((m' - m) / m * 100)"
    by (simp add: display_filter_comparison_def)
  have e: "\<forall>d d'. s_std original = Fin d \<and> d \<noteq> 0 \<and> s_std filtered = Fin d' \<longrightarrow>
      std_change (display_filter_comparison original filtered name) =
        Fin ((d' - d) / d * 100)"
    by (simp add: display_filter_comparison_def)
  from a b c d e show ?thesis by blast
qed

theorem degenerate_statistics_unguarded_witness:
  "apply_contrast_enhancement [[5, 5], [5, 5]] 2 98 = Inr [[NaN, NaN], [NaN, NaN]] \<and>
   \<not> is_finite (mean_change (display_filter_comparison blank_stats blank_stats ''Gaussian Blur'')) \<and>
   \<not> is_finite (std_change (display_filter_comparison blank_stats blank_stats ''Gaussian Blur'')) \<and>
   mean_change (display_filter_comparison (blank_stats\<lparr>s_mean := Fin 4\<rparr>)
     (blank_stats\<lparr>s_mean := Fin 5\<rparr>) ''Gaussian Blur'') = Fin 25"
proof -
  have p: "np_percentile [[5, 5], [5, 5]] 2 = Inr 5 \<and> np_percentile [[5, 5], [5, 5]] 98 = Inr 5"
    by (simp add: np_percentile_def)
  have m: "s_mean blank_stats = Fin 0" and s: "s_std blank_stats = Fin 0"
    by (simp_all add: blank_stats_def)
  have n: "s_mean (blank_stats\<lparr>s_mean := Fin 4\<rparr>) = Fin 4 \<and> (4::real) \<noteq> 0 \<and>
      s_mean (blank_stats\<lparr>s_mean := Fin 5\<rparr>) = Fin 5"
    by simp
  note t1 = degenerate_statistics_unguarded
    [of "[[5, 5], [5, 5]]" 2 5 98 blank_stats blank_stats "''Gaussian Blur''"]
  note t2 = degenerate_statistics_unguarded
    [of "[[5, 5], [5, 5]]" 2 5 98 "blank_stats\<lparr>s_mean := Fin 4\<rparr>"
        "blank_stats\<lparr>s_mean := Fin 5\<rparr>" "''Gaussian Blur''"]
  from t1 p have a: "apply_contrast_enhancement [[5, 5], [5, 5]] 2 98 = Inr [[NaN, NaN], [NaN, NaN]]"
    by simp
  from t1 m have b: "\<not> is_finite (mean_change (display_filter_comparison blank_stats blank_stats ''Gaussian Blur''))"
    by blast
  from t1 s have c: "\<not> is_finite (std_change (display_filter_comparison blank_stats blank_stats ''Gaussian Blur''))"
    by blast
  from t2 n have d: "mean_change (display_filter_comparison (blank_stats\<lparr>s_mean := Fin 4\<rparr>)
     (blank_stats\<lparr>s_mean := Fin 5\<rparr>) ''Gaussian Blur'') = Fin ((5 - 4) / 4 * 100)"
    by blast
  from a b c d show ?thesis by simp
qed

text \<open>
  C6. With the pixel array loaded, \<open>process_with_filters\<close> returns what the pipeline
  of the specification returns for the filter list smoothing, edge detection, contrast
  enhancement (percentiles 2 and 98): one result per filter, in that order, each computed
  by applying the filter to the baseline image and comparing the statistics of its output
  with the statistics of the baseline. Without contrast enhancement the list is the first
  two of these.
\<close>

theorem filters_applied_to_baseline:
  "process_with_filters l (Some img) gaussian_sigma edge_sigma True =
     filter_pipeline_spec l img
       [Smoothing gaussian_sigma, EdgeDetection edge_sigma, ContrastEnhancement 2 98] \<and>
   process_with_filters l (Some img) gaussian_sigma edge_sigma False =
     filter_pipeline_spec l img [Smoothing gaussian_sigma, EdgeDetection edge_sigma] \<and>
   process_with_filters l (Some img) gaussian_sigma edge_sigma True =
     (case apply_contrast_enhancement img 2 98 of
        Inl e \<Rightarrow> Inl e
      | Inr contrast_enhanced \<Rightarrow>
          Inr (map (\<lambda>(name, filtered).
                 display_filter_comparison (compute_image_statistics l (lift img))
                   (compute_image_statistics l filtered) name)
               [(''Gaussian Blur'', lift (apply_gaussian_filter l img gaussian_sigma)),
                (''Edge Detection'', lift (apply_edge_detection l img edge_sigma)),
                (''Contrast Enhancement'', contrast_enhanced)]))"
  by (simp add: process_with_filters_def filter_pipeline_spec_def filter_result_def Let_def
      split: sum.splits)

end
